theory Spec2Isabelle
  imports Complex_Main
begin

section \<open>Strings, whitespace and the two heading patterns\<close>

text \<open>
  A JavaScript string is a sequence of UTF-16 code units; a code unit is modelled by its
  number. \<open>js\<close> turns an ASCII literal into such a sequence.
\<close>

type_synonym js_string = "nat list"

definition js :: "string \<Rightarrow> js_string" where
  "js s = map of_char s"

text \<open>
  The characters matched by \<^verbatim>\<open>\s\<close> in a regular expression and removed by
  \<^verbatim>\<open>String.prototype.trim\<close>: the white space and line terminator code units of
  ECMAScript. The dot of a regular expression (no \<^verbatim>\<open>s\<close> flag) matches every code unit but
  the four line terminators.
\<close>

definition is_whitespace :: "nat \<Rightarrow> bool" where
  "is_whitespace c \<longleftrightarrow>
     c = 0x9 \<or> c = 0xA \<or> c = 0xB \<or> c = 0xC \<or> c = 0xD \<or> c = 0x20 \<or> c = 0xA0 \<or>
     c = 0x1680 \<or> (0x2000 \<le> c \<and> c \<le> 0x200A) \<or> c = 0x2028 \<or> c = 0x2029 \<or>
     c = 0x202F \<or> c = 0x205F \<or> c = 0x3000 \<or> c = 0xFEFF"

definition is_line_terminator :: "nat \<Rightarrow> bool" where
  "is_line_terminator c \<longleftrightarrow> c = 0xA \<or> c = 0xD \<or> c = 0x2028 \<or> c = 0x2029"

definition hash :: nat where
  "hash = 0x23"

definition trim :: "js_string \<Rightarrow> js_string" where
  "trim s = rev (dropWhile is_whitespace (rev (dropWhile is_whitespace s)))"

text \<open>
  \<^verbatim>\<open>/^(#{1,6})\s+(.+)/\<close>, the pattern of \<^verbatim>\<open>getFocusInfoForLine\<close>.
  \<open>match_ws_content\<close> is the tail \<^verbatim>\<open>\s+(.+)\<close>: one white space character, then either
  more of them (the greedy choice) or, on backtracking, one character that the dot accepts.
  \<open>heading_match_at k\<close> is a match whose first group has \<open>k\<close> characters, and
  \<open>headingMatch\<close> tries the group lengths from the longest, as the greedy
  \<^verbatim>\<open>#{1,6}\<close> does; its result is \<^verbatim>\<open>headingMatch[1].length\<close>, and \<open>None\<close> is
  the \<^verbatim>\<open>null\<close> of a failed match.
\<close>

fun match_dot :: "js_string \<Rightarrow> bool" where
  "match_dot [] = False"
| "match_dot (c # cs) = (\<not> is_line_terminator c)"

fun match_ws_content :: "js_string \<Rightarrow> bool" where
  "match_ws_content [] = False"
| "match_ws_content (c # cs) = (is_whitespace c \<and> (match_ws_content cs \<or> match_dot cs))"

definition heading_match_at :: "nat \<Rightarrow> js_string \<Rightarrow> bool" where
  "heading_match_at k s \<longleftrightarrow>
     k \<le> length s \<and> take k s = replicate k hash \<and> match_ws_content (drop k s)"

definition headingMatch :: "js_string \<Rightarrow> nat option" where
  "headingMatch s = find (\<lambda>k. heading_match_at k s) [6, 5, 4, 3, 2, 1]"

text \<open>
  \<^verbatim>\<open>/^#{1,6}\s+/\<close>, the pattern of \<^verbatim>\<open>getParagraphFocusInfo\<close>: some
  \<open>k\<close> between 1 and 6 hash characters with a white space character right after them.
\<close>

fun match_ws :: "js_string \<Rightarrow> bool" where
  "match_ws [] = False"
| "match_ws (c # cs) = is_whitespace c"

definition heading_prefix_at :: "nat \<Rightarrow> js_string \<Rightarrow> bool" where
  "heading_prefix_at k s \<longleftrightarrow>
     k \<le> length s \<and> take k s = replicate k hash \<and> match_ws (drop k s)"

definition heading_prefix :: "js_string \<Rightarrow> bool" where
  "heading_prefix s = list_ex (\<lambda>k. heading_prefix_at k s) [6, 5, 4, 3, 2, 1]"

section \<open>The document and the focus information\<close>

text \<open>
  The editor's document: its lines, numbered from 1. \<^verbatim>\<open>doc.line(n)\<close> of the host
  editor raises a range error for a number outside \<open>1..doc.lines\<close>.
\<close>

datatype error = RangeError

type_synonym doc = "js_string list"

definition doc_lines :: "doc \<Rightarrow> int" where
  "doc_lines d = int (length d)"

definition doc_line :: "doc \<Rightarrow> int \<Rightarrow> error + js_string" where
  "doc_line d n =
     (if 1 \<le> n \<and> n \<le> doc_lines d then Inr (d ! nat (n - 1)) else Inl RangeError)"

datatype focus_type = Heading | Paragraph | List | Block

record EditModeFocusInfo =
  fromLine :: int
  toLine :: int
  type :: focus_type
  level :: "int option"

section \<open>The paragraph extent\<close>

text \<open>
  The test that ends both loops of \<^verbatim>\<open>getParagraphFocusInfo\<close>, on the text of a line:
  the text is trimmed first, then compared with the empty string and matched against the
  pattern.
\<close>

definition para_stop :: "js_string \<Rightarrow> bool" where
  "para_stop text = (let lineText = trim text in lineText = [] \<or> heading_prefix lineText)"

text \<open>
  The upward loop \<^verbatim>\<open>for (let i = lineNumber - 1; i >= 1; i--)\<close>, with the current
  \<open>fromLine\<close>, and the downward loop \<^verbatim>\<open>for (let i = lineNumber + 1; i <= doc.lines; i++)\<close>,
  with the current \<open>toLine\<close>.
\<close>

function para_up :: "doc \<Rightarrow> int \<Rightarrow> int \<Rightarrow> error + int" where
  "para_up d i fromL =
     (if i \<ge> 1 then
        (case doc_line d i of
           Inl e \<Rightarrow> Inl e
         | Inr text \<Rightarrow> if para_stop text then Inr fromL else para_up d (i - 1) i)
      else Inr fromL)"
  by pat_completeness auto
termination
  by (relation "measure (\<lambda>(d, i, fromL). nat i)") auto

declare para_up.simps [simp del]

function para_down :: "doc \<Rightarrow> int \<Rightarrow> int \<Rightarrow> error + int" where
  "para_down d i toL =
     (if i \<le> doc_lines d then
        (case doc_line d i of
           Inl e \<Rightarrow> Inl e
         | Inr text \<Rightarrow> if para_stop text then Inr toL else para_down d (i + 1) i)
      else Inr toL)"
  by pat_completeness auto
termination
  by (relation "measure (\<lambda>(d, i, toL). nat (doc_lines d + 1 - i))") auto

declare para_down.simps [simp del]

definition getParagraphFocusInfo :: "int \<Rightarrow> doc \<Rightarrow> error + EditModeFocusInfo" where
  "getParagraphFocusInfo lineNumber d =
     (case para_up d (lineNumber - 1) lineNumber of
        Inl e \<Rightarrow> Inl e
      | Inr fromL \<Rightarrow>
          (case para_down d (lineNumber + 1) lineNumber of
             Inl e \<Rightarrow> Inl e
           | Inr toL \<Rightarrow>
               Inr \<lparr>fromLine = fromL, toLine = toL, type = Paragraph, level = None\<rparr>))"

section \<open>The structural metadata and the manager\<close>

text \<open>
  The host's cached metadata, as far as the manager reads it: of a heading its
  \<^verbatim>\<open>position.start.line\<close> (counted from 0) and its \<^verbatim>\<open>level\<close>, of a section its
  \<^verbatim>\<open>position.end.line\<close>, which the code reads through optional chaining and compares
  with \<^verbatim>\<open>undefined\<close>. Both lists are optional fields of the metadata.
\<close>

record HeadingCache =
  h_line :: int
  h_level :: int

record SectionCache =
  s_end_line :: "int option"

record CachedMetadata =
  headings :: "HeadingCache list option"
  sections :: "SectionCache list option"

record manager =
  metadata :: "CachedMetadata option"
  includeBody :: bool

definition setMetadata :: "CachedMetadata option \<Rightarrow> manager \<Rightarrow> manager" where
  "setMetadata md m = m\<lparr>metadata := md\<rparr>"

definition setIncludeBody :: "bool \<Rightarrow> manager \<Rightarrow> manager" where
  "setIncludeBody b m = m\<lparr>includeBody := b\<rparr>"

text \<open>\<^verbatim>\<open>Array.prototype.findIndex\<close>; \<open>None\<close> is the result \<open>-1\<close>.\<close>

fun findIndex :: "('a \<Rightarrow> bool) \<Rightarrow> 'a list \<Rightarrow> nat option" where
  "findIndex P [] = None"
| "findIndex P (x # xs) = (if P x then Some 0 else map_option Suc (findIndex P xs))"

text \<open>
  The loop \<^verbatim>\<open>for (let i = currentHeadingIndex + 1; i < headings.length; i++)\<close> of
  \<^verbatim>\<open>getHeadingFocusInfo\<close>, with the current \<open>toLine\<close>: the first heading whose level is
  at most \<open>lvl\<close> sets \<open>toLine\<close> to its line (counted from 0) and ends the loop.
\<close>

function next_heading_loop :: "HeadingCache list \<Rightarrow> int \<Rightarrow> nat \<Rightarrow> int \<Rightarrow> int" where
  "next_heading_loop hs lvl i toL =
     (if i < length hs then
        (if h_level (hs ! i) \<le> lvl then h_line (hs ! i)
         else next_heading_loop hs lvl (i + 1) toL)
      else toL)"
  by pat_completeness auto
termination
  by (relation "measure (\<lambda>(hs, lvl, i, toL). length hs - i)") auto

declare next_heading_loop.simps [simp del]

text \<open>
  \<^verbatim>\<open>getHeadingFocusInfo\<close>. \<open>single_line\<close> is the value of its two early returns.
  \<open>extend_to_sections\<close> is the step after the loop: when \<open>toLine\<close> is still the heading
  line and the metadata has a non-empty list of sections, \<open>toLine\<close> becomes the end line
  of the last section plus one, if that line is defined.
\<close>

definition single_line :: "int \<Rightarrow> int \<Rightarrow> EditModeFocusInfo" where
  "single_line headingLine lvl =
     \<lparr>fromLine = headingLine, toLine = headingLine, type = Heading, level = Some lvl\<rparr>"

definition extend_to_sections :: "CachedMetadata \<Rightarrow> int \<Rightarrow> int \<Rightarrow> int" where
  "extend_to_sections md headingLine toL =
     (case sections md of
        None \<Rightarrow> toL
      | Some secs \<Rightarrow>
          if toL = headingLine \<and> length secs > 0 then
            (case s_end_line (secs ! (length secs - 1)) of
               None \<Rightarrow> toL
             | Some e \<Rightarrow> e + 1)
          else toL)"

definition getHeadingFocusInfo :: "manager \<Rightarrow> int \<Rightarrow> int \<Rightarrow> EditModeFocusInfo" where
  "getHeadingFocusInfo m headingLine lvl =
     (case metadata m of
        None \<Rightarrow> single_line headingLine lvl
      | Some md \<Rightarrow>
          (case headings md of
             None \<Rightarrow> single_line headingLine lvl
           | Some hs \<Rightarrow>
               (case findIndex (\<lambda>h. h_line h + 1 = headingLine) hs of
                  None \<Rightarrow> single_line headingLine lvl
                | Some currentHeadingIndex \<Rightarrow>
                    \<lparr>fromLine = headingLine,
                     toLine =
                       (if includeBody m then
                          extend_to_sections md headingLine
                            (next_heading_loop hs lvl (currentHeadingIndex + 1) headingLine)
                        else headingLine),
                     type = Heading,
                     level = Some lvl\<rparr>)))"

text \<open>
  The loop \<^verbatim>\<open>for (let i = headings.length - 1; i >= 0; i--)\<close> of
  \<^verbatim>\<open>findParentHeading\<close>; the argument \<open>n\<close> is \<open>i + 1\<close>, so that \<open>0\<close> is the
  end of the loop.
\<close>

fun parent_loop :: "manager \<Rightarrow> HeadingCache list \<Rightarrow> int \<Rightarrow> nat \<Rightarrow> EditModeFocusInfo option" where
  "parent_loop m hs lineNumber 0 = None"
| "parent_loop m hs lineNumber (Suc i) =
     (let headingLine = h_line (hs ! i) + 1 in
      if headingLine < lineNumber then Some (getHeadingFocusInfo m headingLine (h_level (hs ! i)))
      else parent_loop m hs lineNumber i)"

definition findParentHeading :: "manager \<Rightarrow> int \<Rightarrow> EditModeFocusInfo option" where
  "findParentHeading m lineNumber =
     (case metadata m of
        None \<Rightarrow> None
      | Some md \<Rightarrow>
          (case headings md of
             None \<Rightarrow> None
           | Some hs \<Rightarrow> parent_loop m hs lineNumber (length hs)))"

text \<open>
  \<^verbatim>\<open>getFocusInfoForLine\<close>. Its result type is nullable, so the value it returns is an
  option; the range error of \<^verbatim>\<open>doc.line\<close> is the left summand. The call of the logger
  has no effect on the result.
\<close>

definition paragraph_result :: "int \<Rightarrow> doc \<Rightarrow> error + EditModeFocusInfo option" where
  "paragraph_result lineNumber d =
     (case getParagraphFocusInfo lineNumber d of Inl e \<Rightarrow> Inl e | Inr fi \<Rightarrow> Inr (Some fi))"

definition getFocusInfoForLine :: "manager \<Rightarrow> int \<Rightarrow> doc \<Rightarrow> error + EditModeFocusInfo option" where
  "getFocusInfoForLine m lineNumber d =
     (case doc_line d lineNumber of
        Inl e \<Rightarrow> Inl e
      | Inr lineText \<Rightarrow>
          (case headingMatch lineText of
             Some k \<Rightarrow> Inr (Some (getHeadingFocusInfo m lineNumber (int k)))
           | None \<Rightarrow>
               if metadata m = None then paragraph_result lineNumber d
               else
                 (case findParentHeading m lineNumber of
                    Some headingInfo \<Rightarrow>
                      if includeBody m then Inr (Some headingInfo)
                      else paragraph_result lineNumber d
                  | None \<Rightarrow> paragraph_result lineNumber d)))"

section \<open>The focus state field and the decorations\<close>

text \<open>
  The effects of a transaction: the two that the plugin defines, and any other. The
  payload of the set-focus effect is nullable.
\<close>

datatype effect = SetFocus "EditModeFocusInfo option" | ClearFocus | OtherEffect

definition focusState_create :: "EditModeFocusInfo option" where
  "focusState_create = None"

fun focusState_update :: "EditModeFocusInfo option \<Rightarrow> effect list \<Rightarrow> EditModeFocusInfo option" where
  "focusState_update val [] = val"
| "focusState_update val (SetFocus v # effects) = v"
| "focusState_update val (ClearFocus # effects) = None"
| "focusState_update val (OtherEffect # effects) = focusState_update val effects"

text \<open>
  A decoration set is the list of the ranges added to the builder: start, end and mark.
  A line decoration sits at the offset \<^verbatim>\<open>line.from\<close> of its line, the number of
  characters and line breaks before the line.
\<close>

datatype mark = dimmedLineMark | focusedLineMark

type_synonym decoration = "nat \<times> nat \<times> mark"

definition line_from :: "doc \<Rightarrow> int \<Rightarrow> nat" where
  "line_from d i = sum_list (map (\<lambda>l. length l + 1) (take (nat (i - 1)) d))"

text \<open>
  The loop \<^verbatim>\<open>for (let i = 1; i <= totalLines; i++)\<close> of \<^verbatim>\<open>buildDecorations\<close>, with
  the ranges added so far. Every \<open>i\<close> of the loop is a line of the document, so
  \<^verbatim>\<open>doc.line(i)\<close> does not raise.
\<close>

function build_loop :: "doc \<Rightarrow> EditModeFocusInfo \<Rightarrow> int \<Rightarrow> decoration list \<Rightarrow> decoration list" where
  "build_loop d focusInfo i builder =
     (if i \<le> doc_lines d then
        build_loop d focusInfo (i + 1)
          (builder @
            [(line_from d i, line_from d i,
              if i \<ge> fromLine focusInfo \<and> i \<le> toLine focusInfo then focusedLineMark
              else dimmedLineMark)])
      else builder)"
  by pat_completeness auto
termination
  by (relation "measure (\<lambda>(d, focusInfo, i, builder). nat (doc_lines d + 1 - i))") auto

declare build_loop.simps [simp del]

definition buildDecorations :: "doc \<Rightarrow> EditModeFocusInfo option \<Rightarrow> decoration list" where
  "buildDecorations d focusInfo =
     (case focusInfo of
        None \<Rightarrow> []
      | Some fi \<Rightarrow> build_loop d fi 1 [])"

text \<open>
  The update of the decorations field. \<open>mapped\<close> is \<^verbatim>\<open>decorations.map(tr.changes)\<close>,
  computed by the host; \<open>d\<close> and \<open>focusInfo\<close> are the document and the focus state
  after the transaction.
\<close>

fun focusDecorations_update ::
  "decoration list \<Rightarrow> effect list \<Rightarrow> doc \<Rightarrow> EditModeFocusInfo option \<Rightarrow> decoration list" where
  "focusDecorations_update mapped [] d focusInfo = mapped"
| "focusDecorations_update mapped (effect # effects) d focusInfo =
     focusDecorations_update
       (case effect of
          SetFocus v \<Rightarrow> buildDecorations d focusInfo
        | ClearFocus \<Rightarrow> buildDecorations d focusInfo
        | OtherEffect \<Rightarrow> mapped)
       effects d focusInfo"

section \<open>The plugin and its pointer handlers\<close>

datatype clear_method = ClickAgain | ClickOutside

datatype content_behavior = BehaviorElement | BehaviorContent | BehaviorNone

datatype focus_scope = ScopeBlock | ScopeContent

record FocusPluginSettings =
  clearMethod :: clear_method
  contentBehavior :: content_behavior
  focusScope :: focus_scope
  enableList :: bool
  focusSensitivity :: real
  indicator :: bool
  isEnabled :: bool

definition DEFAULT_SETTINGS :: FocusPluginSettings where
  "DEFAULT_SETTINGS =
     \<lparr>clearMethod = ClickAgain, contentBehavior = BehaviorNone, focusScope = ScopeContent,
      enableList = False, focusSensitivity = 1600, indicator = True, isEnabled = True\<rparr>"

text \<open>
  An editor view of the host: its document and the values of the two state fields that the
  plugin registers. A transaction that carries effects and no change of the document
  maps the decorations to themselves.
\<close>

record editor_view =
  ev_doc :: doc
  ev_focus :: "EditModeFocusInfo option"
  ev_decorations :: "decoration list"

definition dispatch :: "effect list \<Rightarrow> editor_view \<Rightarrow> editor_view" where
  "dispatch effects ev =
     (let focus' = focusState_update (ev_focus ev) effects in
      ev\<lparr>ev_focus := focus',
         ev_decorations :=
           focusDecorations_update (ev_decorations ev) effects (ev_doc ev) focus'\<rparr>)"

definition applyFocus :: "editor_view \<Rightarrow> EditModeFocusInfo \<Rightarrow> editor_view" where
  "applyFocus ev focusInfo = dispatch [SetFocus (Some focusInfo)] ev"

definition clearFocus :: "editor_view \<Rightarrow> editor_view" where
  "clearFocus ev = dispatch [ClearFocus] ev"

definition isLineFocused :: "editor_view \<Rightarrow> int \<Rightarrow> bool" where
  "isLineFocused ev lineNumber =
     (case ev_focus ev of
        None \<Rightarrow> False
      | Some focusInfo \<Rightarrow> lineNumber \<ge> fromLine focusInfo \<and> lineNumber \<le> toLine focusInfo)"

text \<open>
  \<^verbatim>\<open>doc.lineAt(pos).number\<close> of the host editor: the line that holds the offset
  \<open>pos\<close>, a line break counting as one character after its line; an offset beyond the
  document raises a range error.
\<close>

fun lineAt_from :: "doc \<Rightarrow> nat \<Rightarrow> int \<Rightarrow> error + int" where
  "lineAt_from [] pos n = Inl RangeError"
| "lineAt_from (l # ls) pos n =
     (if pos \<le> length l then Inr n else lineAt_from ls (pos - length l - 1) (n + 1))"

definition lineAt :: "doc \<Rightarrow> nat \<Rightarrow> error + int" where
  "lineAt d pos = lineAt_from d pos 1"

text \<open>
  What the handlers read of the host: the active markdown view, with its mode and its editor
  view, and the cached metadata of the active file. A pointer event carries its time stamp,
  whether its target is an element and with which classes, and the answer of
  \<^verbatim>\<open>posAtCoords\<close> for its coordinates. Time stamps and the sensitivity are numbers,
  modelled as reals.
\<close>

datatype view_mode = Preview | Source | OtherMode

record markdown_view =
  v_mode :: view_mode
  v_editor :: "editor_view option"

record 'p plugin =
  settings :: FocusPluginSettings
  lastClick :: real
  editModeFocusManager :: manager
  focusManager :: 'p
  activeView :: "markdown_view option"
  fileCache :: "CachedMetadata option"

record pointer_event =
  timeStamp :: real
  targetIsElement :: bool
  targetClasses :: "string list"
  posAtCoords :: "nat option"

definition with_editor :: "'p plugin \<Rightarrow> markdown_view \<Rightarrow> editor_view \<Rightarrow> 'p plugin" where
  "with_editor p view ev = p\<lparr>activeView := Some (view\<lparr>v_editor := Some ev\<rparr>)\<rparr>"

definition handleEditModeClick ::
  "'p plugin \<Rightarrow> pointer_event \<Rightarrow> markdown_view \<Rightarrow> error + 'p plugin" where
  "handleEditModeClick p evt view =
     (case v_editor view of
        None \<Rightarrow> Inr p
      | Some editorView \<Rightarrow>
          (let p1 = p\<lparr>editModeFocusManager := setMetadata (fileCache p) (editModeFocusManager p)\<rparr> in
           case posAtCoords evt of
             None \<Rightarrow> Inr p1
           | Some pos \<Rightarrow>
               if pos = 0 then Inr p1
               else
                 (case lineAt (ev_doc editorView) pos of
                    Inl e \<Rightarrow> Inl e
                  | Inr lineNumber \<Rightarrow>
                      (let currentFocus = ev_focus editorView in
                       if (case currentFocus of
                             None \<Rightarrow> False
                           | Some cf \<Rightarrow>
                               clearMethod (settings p1) = ClickAgain \<and>
                               lineNumber \<ge> fromLine cf \<and> lineNumber \<le> toLine cf)
                       then Inr (with_editor p1 view (clearFocus editorView))
                       else if currentFocus \<noteq> None \<and> clearMethod (settings p1) = ClickOutside \<and>
                               targetIsElement evt \<and>
                               (''cm-gutters'' \<in> set (targetClasses evt) \<or>
                                ''cm-editor'' \<in> set (targetClasses evt))
                       then Inr (with_editor p1 view (clearFocus editorView))
                       else
                         (case getFocusInfoForLine (editModeFocusManager p1) lineNumber
                                 (ev_doc editorView) of
                            Inl e \<Rightarrow> Inl e
                          | Inr None \<Rightarrow> Inr p1
                          | Inr (Some focusInfo) \<Rightarrow>
                              Inr (with_editor p1 view (applyFocus editorView focusInfo)))))))"

definition pointerdown :: "'p plugin \<Rightarrow> pointer_event \<Rightarrow> 'p plugin" where
  "pointerdown p evt = p\<lparr>lastClick := timeStamp evt\<rparr>"

text \<open>
  The handler of pointer-up. Its preview branch works on the focus manager of the preview
  mode, whose code is in other modules; \<open>previewClick\<close> stands for that branch and gives
  the state of that manager after it.
\<close>

definition pointerup ::
  "('p plugin \<Rightarrow> pointer_event \<Rightarrow> 'p) \<Rightarrow> 'p plugin \<Rightarrow> pointer_event \<Rightarrow> error + 'p plugin" where
  "pointerup previewClick p evt =
     (if \<not> isEnabled (settings p) then Inr p
      else if timeStamp evt - lastClick p > focusSensitivity (settings p) then Inr p
      else if \<not> targetIsElement evt then Inr p
      else
        (case activeView p of
           None \<Rightarrow> Inr p
         | Some view \<Rightarrow>
             if v_mode view = Preview then Inr (p\<lparr>focusManager := previewClick p evt\<rparr>)
             else if v_mode view = Source then handleEditModeClick p evt view
             else Inr p))"

section \<open>The properties as the specification words them\<close>

text \<open>
  The heading pattern in words: \<open>k\<close> hash characters, \<open>k\<close> between 1 and 6, then white
  space, then content, which starts with a character that the dot accepts.
\<close>

definition heading_pattern :: "nat \<Rightarrow> js_string \<Rightarrow> bool" where
  "heading_pattern k text \<longleftrightarrow>
     1 \<le> k \<and> k \<le> 6 \<and>
     (\<exists>ws c rest. text = replicate k hash @ ws @ c # rest \<and> ws \<noteq> [] \<and>
        list_all is_whitespace ws \<and> \<not> is_line_terminator c)"

text \<open>
  The paragraph extent in words: from the clicked line \<open>n\<close>, upward over the lines before
  it and downward over the lines after it, as long as the line does not stop the extent.
\<close>

definition paragraph_extent :: "(js_string \<Rightarrow> bool) \<Rightarrow> int \<Rightarrow> doc \<Rightarrow> int \<times> int" where
  "paragraph_extent stop n d =
     (n - int (length (takeWhile (\<lambda>t. \<not> stop t) (rev (take (nat (n - 1)) d)))),
      n + int (length (takeWhile (\<lambda>t. \<not> stop t) (drop (nat n) d))))"

text \<open>
  Two readings of the line that stops a paragraph: the line is blank after trimming or the
  line matches the heading pattern; the line is blank after trimming or the trimmed line
  matches the heading pattern.
\<close>

definition stop_line :: "js_string \<Rightarrow> bool" where
  "stop_line text \<longleftrightarrow> trim text = [] \<or> headingMatch text \<noteq> None"

definition stop_trimmed_line :: "js_string \<Rightarrow> bool" where
  "stop_trimmed_line text \<longleftrightarrow> trim text = [] \<or> headingMatch (trim text) \<noteq> None"

text \<open>
  The nearest preceding heading in words: of the headings of the metadata, scanned from the
  end backward, the first whose line, counted from 1, is less than the clicked line.
\<close>

definition preceding_heading :: "CachedMetadata \<Rightarrow> int \<Rightarrow> HeadingCache option" where
  "preceding_heading md n =
     (case headings md of
        None \<Rightarrow> None
      | Some hs \<Rightarrow> find (\<lambda>h. h_line h + 1 < n) (rev hs))"

text \<open>
  The end of the full extent of a heading in words: of the headings after the one at index
  \<open>idx\<close>, in the order of the document, the first whose level is at most \<open>lvl\<close> ends
  the extent on its own line counted from 0, the line before it; if there is none, the
  extent ends one past the end line of the last section; and it stays on the heading line
  if neither gives an end.
\<close>

definition full_extent_end ::
  "CachedMetadata \<Rightarrow> HeadingCache list \<Rightarrow> nat \<Rightarrow> int \<Rightarrow> int \<Rightarrow> int" where
  "full_extent_end md hs idx headingLine lvl =
     (case find (\<lambda>h. h_level h \<le> lvl) (drop (idx + 1) hs) of
        Some next \<Rightarrow> h_line next
      | None \<Rightarrow>
          (case sections md of
             None \<Rightarrow> headingLine
           | Some secs \<Rightarrow>
               if secs = [] then headingLine
               else (case s_end_line (last secs) of None \<Rightarrow> headingLine | Some e \<Rightarrow> e + 1)))"

text \<open>
  A heading line that the metadata does not resolve: there is no metadata, or it has no list
  of headings, or no heading of the list has the line, counted from 1, as its start.
\<close>

definition unresolved_heading :: "manager \<Rightarrow> int \<Rightarrow> bool" where
  "unresolved_heading m headingLine =
     (case metadata m of
        None \<Rightarrow> True
      | Some md \<Rightarrow>
          (case headings md of
             None \<Rightarrow> True
           | Some hs \<Rightarrow> list_all (\<lambda>h. h_line h + 1 \<noteq> headingLine) hs))"

text \<open>Whether a decoration set holds a mark for the line \<open>i\<close> of the document.\<close>

definition has_mark :: "decoration list \<Rightarrow> doc \<Rightarrow> int \<Rightarrow> mark \<Rightarrow> bool" where
  "has_mark decorations d i mk \<longleftrightarrow> (line_from d i, line_from d i, mk) \<in> set decorations"

section \<open>Proofs\<close>

subsection \<open>Evaluation on concrete inputs\<close>

lemma replicate_numeral: "replicate (numeral k) x = x # replicate (pred_numeral k) x"
  by (simp add: numeral_eq_Suc)

lemmas eval_simps =
  js_def para_stop_def trim_def is_whitespace_def is_line_terminator_def hash_def
  heading_prefix_def heading_prefix_at_def headingMatch_def heading_match_at_def
  replicate_numeral doc_lines_def doc_line_def
  para_up.simps para_down.simps next_heading_loop.simps build_loop.simps

subsection \<open>The patterns\<close>

lemma lt_is_ws: "is_line_terminator c \<Longrightarrow> is_whitespace c"
  by (auto simp: is_line_terminator_def is_whitespace_def)

lemma hash_not_ws: "\<not> is_whitespace hash"
  by (simp add: is_whitespace_def hash_def)

lemma trim_last: "trim s \<noteq> [] \<Longrightarrow> \<not> is_whitespace (last (trim s))"
  unfolding trim_def by (simp add: last_rev hd_dropWhile)

lemma match_ws_content_iff:
  "match_ws_content xs \<longleftrightarrow>
     (\<exists>ws c rest. xs = ws @ c # rest \<and> ws \<noteq> [] \<and> list_all is_whitespace ws \<and> \<not> is_line_terminator c)"
proof (induction xs)
  case Nil
  then show ?case by simp
next
  case (Cons a xs)
  show ?case
  proof
    assume m: "match_ws_content (a # xs)"
    then have a: "is_whitespace a" by simp
    from m have "match_ws_content xs \<or> match_dot xs" by simp
    then show "\<exists>ws c rest. a # xs = ws @ c # rest \<and> ws \<noteq> [] \<and> list_all is_whitespace ws \<and> \<not> is_line_terminator c"
    proof
      assume "match_ws_content xs"
      with Cons.IH obtain ws c rest where
        "xs = ws @ c # rest" "list_all is_whitespace ws" "\<not> is_line_terminator c" by blast
      with a have "a # xs = (a # ws) @ c # rest \<and> a # ws \<noteq> [] \<and> list_all is_whitespace (a # ws) \<and> \<not> is_line_terminator c"
        by simp
      then show ?thesis by blast
    next
      assume "match_dot xs"
      then obtain c rest where "xs = c # rest" "\<not> is_line_terminator c"
        by (cases xs) auto
      with a have "a # xs = [a] @ c # rest \<and> [a] \<noteq> [] \<and> list_all is_whitespace [a] \<and> \<not> is_line_terminator c"
        by simp
      then show ?thesis by blast
    qed
  next
    assume "\<exists>ws c rest. a # xs = ws @ c # rest \<and> ws \<noteq> [] \<and> list_all is_whitespace ws \<and> \<not> is_line_terminator c"
    then obtain ws c rest where e: "a # xs = ws @ c # rest" and ne: "ws \<noteq> []"
      and all: "list_all is_whitespace ws" and c: "\<not> is_line_terminator c" by blast
    from ne obtain w ws' where ws: "ws = w # ws'" by (cases ws) auto
    with e all have a: "is_whitespace a" and xs: "xs = ws' @ c # rest" and all': "list_all is_whitespace ws'"
      by auto
    show "match_ws_content (a # xs)"
    proof (cases ws')
      case Nil
      with xs c a show ?thesis by simp
    next
      case (Cons v vs)
      with xs all' c Cons.IH have "match_ws_content xs" by blast
      with a show ?thesis by simp
    qed
  qed
qed

lemma match_ws_content_hd: "match_ws_content xs \<Longrightarrow> match_ws xs"
  by (cases xs) auto

lemma match_ws_content_trimmed:
  "match_ws xs \<Longrightarrow> \<not> is_whitespace (last xs) \<Longrightarrow> match_ws_content xs"
proof (induction xs)
  case Nil
  then show ?case by simp
next
  case (Cons a xs)
  then have a: "is_whitespace a" by simp
  show ?case
  proof (cases xs)
    case Nil
    with Cons.prems a show ?thesis by simp
  next
    case (Cons b ys)
    show ?thesis
    proof (cases "is_whitespace b")
      case True
      with Cons Cons.prems Cons.IH have "match_ws_content xs" by simp
      with a show ?thesis by simp
    next
      case False
      then have "\<not> is_line_terminator b" using lt_is_ws by blast
      with a Cons show ?thesis by simp
    qed
  qed
qed

lemma headingMatch_Some:
  "headingMatch s = Some k \<longleftrightarrow>
     1 \<le> k \<and> k \<le> 6 \<and> heading_match_at k s"
proof
  assume h: "headingMatch s = Some k"
  then have "k \<in> set [6, 5, 4, 3, 2, 1::nat]" "heading_match_at k s"
    unfolding headingMatch_def by (auto simp: find_Some_iff nth_Cons' split: if_splits)
  then show "1 \<le> k \<and> k \<le> 6 \<and> heading_match_at k s" by auto
next
  assume a: "1 \<le> k \<and> k \<le> 6 \<and> heading_match_at k s"
  have uniq: "j = k" if "heading_match_at j s" for j
  proof -
    from that a obtain c cs d ds where
      j: "j \<le> length s" "take j s = replicate j hash" "drop j s = c # cs" "is_whitespace c" and
      k: "k \<le> length s" "take k s = replicate k hash" "drop k s = d # ds" "is_whitespace d"
      unfolding heading_match_at_def
      by (metis match_ws_content.elims(2))
    have sj: "s = replicate j hash @ c # cs" using j by (metis append_take_drop_id)
    have sk: "s = replicate k hash @ d # ds" using k by (metis append_take_drop_id)
    show ?thesis
    proof (rule ccontr)
      assume "j \<noteq> k"
      then consider "j < k" | "k < j" by linarith
      then show False
      proof cases
        case 1
        then have "s ! j = hash" using sk by (simp add: nth_append)
        moreover have "s ! j = c" using sj by (simp add: nth_append)
        ultimately show False using j hash_not_ws by simp
      next
        case 2
        then have "s ! k = hash" using sj by (simp add: nth_append)
        moreover have "s ! k = d" using sk by (simp add: nth_append)
        ultimately show False using k hash_not_ws by simp
      qed
    qed
  qed
  from a have "k \<in> set [6, 5, 4, 3, 2, 1::nat]" by auto
  with a have "find (\<lambda>k. heading_match_at k s) [6, 5, 4, 3, 2, 1] \<noteq> None"
    by (metis find_None_iff)
  then obtain j where "headingMatch s = Some j" unfolding headingMatch_def by blast
  moreover from this have "heading_match_at j s"
    unfolding headingMatch_def by (metis (mono_tags, lifting) find_Some_iff)
  ultimately show "headingMatch s = Some k" using uniq by simp
qed

lemma takeWhile_hashes:
  "c \<noteq> hash \<Longrightarrow> takeWhile (\<lambda>c. c = hash) (replicate k hash @ c # cs) = replicate k hash"
  by (induction k) auto

lemma heading_match_at_leading:
  assumes "heading_match_at k s"
  shows "k = length (takeWhile (\<lambda>c. c = hash) s)"
proof -
  from assms obtain c cs where
    k: "take k s = replicate k hash" "drop k s = c # cs" "is_whitespace c"
    unfolding heading_match_at_def by (metis match_ws_content.elims(2))
  then have s: "s = replicate k hash @ c # cs" by (metis append_take_drop_id)
  have "c \<noteq> hash" using k hash_not_ws by auto
  then have "takeWhile (\<lambda>c. c = hash) s = replicate k hash"
    by (subst s) (rule takeWhile_hashes)
  then show ?thesis by simp
qed

lemma heading_prefix_iff: "heading_prefix s \<longleftrightarrow> (\<exists>k. 1 \<le> k \<and> k \<le> 6 \<and> heading_prefix_at k s)"
proof -
  have "(\<exists>k \<in> set [6, 5, 4, 3, 2, 1::nat]. heading_prefix_at k s) \<longleftrightarrow> (\<exists>k. 1 \<le> k \<and> k \<le> 6 \<and> heading_prefix_at k s)"
  proof -
    have "set [6, 5, 4, 3, 2, 1::nat] = {k. 1 \<le> k \<and> k \<le> 6}" by auto
    then show ?thesis by blast
  qed
  then show ?thesis unfolding heading_prefix_def list_ex_iff .
qed

lemma heading_prefix_trimmed:
  assumes "s = [] \<or> \<not> is_whitespace (last s)"
  shows "heading_prefix s \<longleftrightarrow> headingMatch s \<noteq> None"
proof
  assume "heading_prefix s"
  then obtain k where k: "1 \<le> k" "k \<le> 6" "heading_prefix_at k s"
    using heading_prefix_iff by blast
  then have d: "match_ws (drop k s)" "k \<le> length s" "take k s = replicate k hash"
    unfolding heading_prefix_at_def by auto
  then have "drop k s \<noteq> []" by auto
  then have "last (drop k s) = last s" "s \<noteq> []" by auto
  with assms d have "match_ws_content (drop k s)" by (simp add: match_ws_content_trimmed)
  with d have "heading_match_at k s" unfolding heading_match_at_def by simp
  with k have "headingMatch s = Some k" by (simp add: headingMatch_Some)
  then show "headingMatch s \<noteq> None" by simp
next
  assume "headingMatch s \<noteq> None"
  then obtain k where "headingMatch s = Some k" by blast
  then have "1 \<le> k" "k \<le> 6" "heading_match_at k s" by (simp_all add: headingMatch_Some)
  then have "1 \<le> k \<and> k \<le> 6 \<and> heading_prefix_at k s"
    unfolding heading_match_at_def heading_prefix_at_def by (simp add: match_ws_content_hd)
  then show "heading_prefix s" using heading_prefix_iff by blast
qed

lemma para_stop_trimmed: "para_stop text \<longleftrightarrow> trim text = [] \<or> headingMatch (trim text) \<noteq> None"
proof -
  have "trim text = [] \<or> \<not> is_whitespace (last (trim text))" using trim_last by blast
  then show ?thesis unfolding para_stop_def Let_def by (simp add: heading_prefix_trimmed)
qed

subsection \<open>The loops of the paragraph extent\<close>

lemma doc_line_in: "1 \<le> i \<Longrightarrow> i \<le> doc_lines d \<Longrightarrow> doc_line d i = Inr (d ! nat (i - 1))"
  by (simp add: doc_line_def)

lemma para_down_eq:
  "1 \<le> i \<Longrightarrow> toL = i - 1 \<Longrightarrow>
   para_down d i toL =
     Inr (i - 1 + int (length (takeWhile (\<lambda>t. \<not> para_stop t) (drop (nat (i - 1)) d))))"
proof (induction d i toL rule: para_down.induct)
  case (1 d i toL)
  show ?case
  proof (cases "i \<le> doc_lines d")
    case False
    then have "drop (nat (i - 1)) d = []" by (simp add: doc_lines_def)
    with False "1.prems" show ?thesis by (subst para_down.simps) simp
  next
    case True
    let ?k = "nat (i - 1)"
    from True "1.prems" have k: "?k < length d" by (simp add: doc_lines_def)
    have dl: "doc_line d i = Inr (d ! ?k)" using True "1.prems" by (simp add: doc_line_in)
    have dr: "drop ?k d = d ! ?k # drop (nat i) d"
      using k "1.prems" by (metis Cons_nth_drop_Suc Suc_nat_eq_nat_zadd1 add.commute diff_add_cancel diff_ge_0_iff_ge)
    show ?thesis
    proof (cases "para_stop (d ! ?k)")
      case True
      with dl dr \<open>i \<le> doc_lines d\<close> "1.prems" show ?thesis by (subst para_down.simps) simp
    next
      case False
      have "para_down d (i + 1) i = Inr (i + 1 - 1 + int (length (takeWhile (\<lambda>t. \<not> para_stop t) (drop (nat (i + 1 - 1)) d))))"
        using "1.IH"[OF True dl False] "1.prems" by simp
      with False dl dr True "1.prems" show ?thesis by (subst para_down.simps) simp
    qed
  qed
qed

lemma para_up_eq:
  "0 \<le> i \<Longrightarrow> i \<le> doc_lines d \<Longrightarrow> fromL = i + 1 \<Longrightarrow>
   para_up d i fromL =
     Inr (i + 1 - int (length (takeWhile (\<lambda>t. \<not> para_stop t) (rev (take (nat i) d)))))"
proof (induction d i fromL rule: para_up.induct)
  case (1 d i fromL)
  show ?case
  proof (cases "i \<ge> 1")
    case False
    with "1.prems" show ?thesis by (subst para_up.simps) simp
  next
    case True
    let ?k = "nat (i - 1)"
    from True "1.prems" have k: "?k < length d" by (simp add: doc_lines_def)
    have dl: "doc_line d i = Inr (d ! ?k)" using True "1.prems" by (simp add: doc_line_in)
    have "nat i = Suc ?k" using True by simp
    then have tk: "rev (take (nat i) d) = d ! ?k # rev (take ?k d)"
      using k by (simp add: take_Suc_conv_app_nth)
    show ?thesis
    proof (cases "para_stop (d ! ?k)")
      case True
      with dl tk \<open>i \<ge> 1\<close> "1.prems" show ?thesis by (subst para_up.simps) simp
    next
      case False
      have "para_up d (i - 1) i = Inr (i - 1 + 1 - int (length (takeWhile (\<lambda>t. \<not> para_stop t) (rev (take (nat (i - 1)) d)))))"
        using "1.IH"[OF True dl False] "1.prems" True by simp
      with False dl tk True "1.prems" show ?thesis by (subst para_up.simps) simp
    qed
  qed
qed

lemma getParagraphFocusInfo_eq:
  assumes "1 \<le> n" "n \<le> doc_lines d"
  shows "getParagraphFocusInfo n d =
     Inr \<lparr>fromLine = n - int (length (takeWhile (\<lambda>t. \<not> para_stop t) (rev (take (nat (n - 1)) d)))),
          toLine = n + int (length (takeWhile (\<lambda>t. \<not> para_stop t) (drop (nat n) d))),
          type = Paragraph, level = None\<rparr>"
proof -
  have u: "para_up d (n - 1) n = Inr (n - 1 + 1 - int (length (takeWhile (\<lambda>t. \<not> para_stop t) (rev (take (nat (n - 1)) d)))))"
    using assms by (intro para_up_eq) auto
  have dn: "para_down d (n + 1) n = Inr (n + 1 - 1 + int (length (takeWhile (\<lambda>t. \<not> para_stop t) (drop (nat (n + 1 - 1)) d))))"
    using assms by (intro para_down_eq) auto
  show ?thesis unfolding getParagraphFocusInfo_def using u dn by simp
qed

subsection \<open>The paragraph extent\<close>

lemma para_stop_eq: "para_stop = stop_trimmed_line"
  by (rule ext) (simp add: para_stop_trimmed stop_trimmed_line_def)

text \<open>
  Claim C3, as amended. For every document and every clicked line of it, the paragraph
  extent grows upward and downward from the clicked line and stops, exclusively, at the first
  line whose trimmed text is empty or matches the heading pattern, or at the boundaries of
  the document. For the document of the lines \<open># H1\<close>, \<open>line A\<close>, \<open>line B\<close>, an empty
  line and \<open>line C\<close>, a click on line 2 or on line 3 gives the extent 2 to 3 and a click
  on line 5 gives 5 to 5.
\<close>

theorem paragraph_extent_trimmed:
  "(1 \<le> n \<and> n \<le> doc_lines d \<longrightarrow>
      getParagraphFocusInfo n d =
        Inr \<lparr>fromLine = fst (paragraph_extent stop_trimmed_line n d),
             toLine = snd (paragraph_extent stop_trimmed_line n d),
             type = Paragraph, level = None\<rparr>) \<and>
   getParagraphFocusInfo 2 [js ''# H1'', js ''line A'', js ''line B'', js '''', js ''line C''] =
     Inr \<lparr>fromLine = 2, toLine = 3, type = Paragraph, level = None\<rparr> \<and>
   getParagraphFocusInfo 3 [js ''# H1'', js ''line A'', js ''line B'', js '''', js ''line C''] =
     Inr \<lparr>fromLine = 2, toLine = 3, type = Paragraph, level = None\<rparr> \<and>
   getParagraphFocusInfo 5 [js ''# H1'', js ''line A'', js ''line B'', js '''', js ''line C''] =
     Inr \<lparr>fromLine = 5, toLine = 5, type = Paragraph, level = None\<rparr>"
proof (intro conjI impI)
  assume "1 \<le> n \<and> n \<le> doc_lines d"
  then show "getParagraphFocusInfo n d =
        Inr \<lparr>fromLine = fst (paragraph_extent stop_trimmed_line n d),
             toLine = snd (paragraph_extent stop_trimmed_line n d),
             type = Paragraph, level = None\<rparr>"
    by (simp add: getParagraphFocusInfo_eq paragraph_extent_def para_stop_eq)
next
  show "getParagraphFocusInfo 2 [js ''# H1'', js ''line A'', js ''line B'', js '''', js ''line C''] =
     Inr \<lparr>fromLine = 2, toLine = 3, type = Paragraph, level = None\<rparr>"
    by (simp add: getParagraphFocusInfo_def eval_simps)
next
  show "getParagraphFocusInfo 3 [js ''# H1'', js ''line A'', js ''line B'', js '''', js ''line C''] =
     Inr \<lparr>fromLine = 2, toLine = 3, type = Paragraph, level = None\<rparr>"
    by (simp add: getParagraphFocusInfo_def eval_simps)
next
  show "getParagraphFocusInfo 5 [js ''# H1'', js ''line A'', js ''line B'', js '''', js ''line C''] =
     Inr \<lparr>fromLine = 5, toLine = 5, type = Paragraph, level = None\<rparr>"
    by (simp add: getParagraphFocusInfo_def eval_simps)
qed

theorem paragraph_extent_trimmed_witness:
  "getParagraphFocusInfo 1 [js ''line A'', js ''line B'', js ''  ## H'', js ''line C''] =
     Inr \<lparr>fromLine = 1, toLine = 2, type = Paragraph, level = None\<rparr>"
proof -
  have "1 \<le> (1::int) \<and> 1 \<le> doc_lines [js ''line A'', js ''line B'', js ''  ## H'', js ''line C'']"
    by (simp add: doc_lines_def)
  then have "getParagraphFocusInfo 1 [js ''line A'', js ''line B'', js ''  ## H'', js ''line C''] =
        Inr \<lparr>fromLine = fst (paragraph_extent stop_trimmed_line 1 [js ''line A'', js ''line B'', js ''  ## H'', js ''line C'']),
             toLine = snd (paragraph_extent stop_trimmed_line 1 [js ''line A'', js ''line B'', js ''  ## H'', js ''line C'']),
             type = Paragraph, level = None\<rparr>"
    using paragraph_extent_trimmed [of 1 "[js ''line A'', js ''line B'', js ''  ## H'', js ''line C'']"]
    by blast
  moreover have "paragraph_extent stop_trimmed_line 1 [js ''line A'', js ''line B'', js ''  ## H'', js ''line C''] = (1, 2)"
    by (simp add: paragraph_extent_def stop_trimmed_line_def eval_simps)
  ultimately show ?thesis by simp
qed

text \<open>
  Claim C3 as stated fails: the line \<open> # H\<close>, with a space before the hash, is not blank
  after trimming and does not match the heading pattern, yet it ends the paragraph of the
  line before it, because the loop matches the pattern against the trimmed text.
\<close>

theorem paragraph_stop_counterexample:
  "getParagraphFocusInfo 1 [js ''line A'', js '' # H''] =
     Inr \<lparr>fromLine = 1, toLine = 1, type = Paragraph, level = None\<rparr> \<and>
   paragraph_extent stop_line 1 [js ''line A'', js '' # H''] = (1, 2)"
  by (simp add: getParagraphFocusInfo_def paragraph_extent_def stop_line_def eval_simps)

text \<open>
  Claim C10. For every document and every clicked line number between 1 and the number of
  lines, \<open>getParagraphFocusInfo\<close> returns an extent with
  \<open>1 \<le> fromLine \<le> clicked line \<le> toLine \<le> number of lines\<close>.
\<close>

theorem paragraph_extent_inside:
  assumes "1 \<le> n" and "n \<le> doc_lines d"
  shows "\<exists>fi. getParagraphFocusInfo n d = Inr fi \<and>
           1 \<le> fromLine fi \<and> fromLine fi \<le> n \<and> n \<le> toLine fi \<and> toLine fi \<le> doc_lines d"
proof -
  let ?up = "takeWhile (\<lambda>t. \<not> para_stop t) (rev (take (nat (n - 1)) d))"
  let ?down = "takeWhile (\<lambda>t. \<not> para_stop t) (drop (nat n) d)"
  have "length ?up \<le> length (rev (take (nat (n - 1)) d))" by (rule length_takeWhile_le)
  also have "\<dots> \<le> nat (n - 1)" by simp
  finally have up: "int (length ?up) \<le> n - 1" using assms by linarith
  have "length ?down \<le> length (drop (nat n) d)" by (rule length_takeWhile_le)
  also have "\<dots> = length d - nat n" by simp
  finally have down: "n + int (length ?down) \<le> doc_lines d"
    using assms by (simp add: doc_lines_def)
  show ?thesis
    using getParagraphFocusInfo_eq [OF assms] up down by simp
qed

theorem paragraph_extent_inside_witness:
  "\<exists>fi. getParagraphFocusInfo 3 [js ''# H1'', js ''line A'', js ''line B'', js '''', js ''line C''] = Inr fi \<and>
      1 \<le> fromLine fi \<and> fromLine fi \<le> 3 \<and> 3 \<le> toLine fi \<and> toLine fi \<le> 5"
  using paragraph_extent_inside [of 3 "[js ''# H1'', js ''line A'', js ''line B'', js '''', js ''line C'']"]
  by (simp add: doc_lines_def)

subsection \<open>Headings\<close>

lemma findIndex_None: "findIndex P xs = None \<longleftrightarrow> list_all (\<lambda>x. \<not> P x) xs"
  by (induction xs) auto

lemma getHeadingFocusInfo_type: "type (getHeadingFocusInfo m headingLine lvl) = Heading"
  by (simp add: getHeadingFocusInfo_def single_line_def split: option.splits)

lemma getHeadingFocusInfo_unresolved:
  "unresolved_heading m headingLine \<Longrightarrow>
   getHeadingFocusInfo m headingLine lvl = single_line headingLine lvl"
proof (cases "metadata m")
  case None
  then show ?thesis by (simp add: getHeadingFocusInfo_def)
next
  case (Some md)
  assume u: "unresolved_heading m headingLine"
  show ?thesis
  proof (cases "headings md")
    case None
    with Some show ?thesis by (simp add: getHeadingFocusInfo_def)
  next
    case hs: (Some hs)
    with Some u have "list_all (\<lambda>h. \<not> h_line h + 1 = headingLine) hs"
      by (simp add: unresolved_heading_def)
    then have "findIndex (\<lambda>h. h_line h + 1 = headingLine) hs = None"
      by (simp only: findIndex_None)
    with Some hs show ?thesis by (simp add: getHeadingFocusInfo_def)
  qed
qed

lemma parent_loop_find:
  "k \<le> length hs \<Longrightarrow>
   parent_loop m hs n k =
     map_option (\<lambda>h. getHeadingFocusInfo m (h_line h + 1) (h_level h))
       (find (\<lambda>h. h_line h + 1 < n) (rev (take k hs)))"
proof (induction k)
  case 0
  then show ?case by simp
next
  case (Suc k)
  then have "rev (take (Suc k) hs) = hs ! k # rev (take k hs)"
    by (simp add: take_Suc_conv_app_nth)
  with Suc show ?case by (simp add: Let_def)
qed

lemma findParentHeading_eq:
  "metadata m = Some md \<Longrightarrow>
   findParentHeading m n =
     map_option (\<lambda>h. getHeadingFocusInfo m (h_line h + 1) (h_level h)) (preceding_heading md n)"
  by (simp add: findParentHeading_def preceding_heading_def parent_loop_find split: option.splits)

lemma findParentHeading_type: "findParentHeading m n = Some fi \<Longrightarrow> type fi = Heading"
proof (cases "metadata m")
  case None
  assume "findParentHeading m n = Some fi"
  with None show ?thesis by (simp add: findParentHeading_def)
next
  case (Some md)
  assume "findParentHeading m n = Some fi"
  with Some show ?thesis
    by (auto simp: findParentHeading_eq getHeadingFocusInfo_type)
qed

lemma heading_match_at_pattern:
  "heading_match_at k s \<longleftrightarrow>
     (\<exists>ws c rest. s = replicate k hash @ ws @ c # rest \<and> ws \<noteq> [] \<and>
        list_all is_whitespace ws \<and> \<not> is_line_terminator c)"
proof
  assume "heading_match_at k s"
  then have k: "k \<le> length s" "take k s = replicate k hash" "match_ws_content (drop k s)"
    by (simp_all add: heading_match_at_def)
  then obtain ws c rest where
    d: "drop k s = ws @ c # rest" "ws \<noteq> []" "list_all is_whitespace ws" "\<not> is_line_terminator c"
    using match_ws_content_iff by blast
  have "s = take k s @ drop k s" by simp
  with k d have "s = replicate k hash @ ws @ c # rest" by simp
  with d show "\<exists>ws c rest. s = replicate k hash @ ws @ c # rest \<and> ws \<noteq> [] \<and>
        list_all is_whitespace ws \<and> \<not> is_line_terminator c" by blast
next
  assume "\<exists>ws c rest. s = replicate k hash @ ws @ c # rest \<and> ws \<noteq> [] \<and>
        list_all is_whitespace ws \<and> \<not> is_line_terminator c"
  then obtain ws c rest where
    s: "s = replicate k hash @ ws @ c # rest" and
    d: "ws \<noteq> []" "list_all is_whitespace ws" "\<not> is_line_terminator c" by blast
  from s have "k \<le> length s" "take k s = replicate k hash" "drop k s = ws @ c # rest"
    by simp_all
  moreover from d have "match_ws_content (ws @ c # rest)"
    using match_ws_content_iff by blast
  ultimately show "heading_match_at k s" by (simp add: heading_match_at_def)
qed

lemma headingMatch_pattern: "headingMatch s = Some k \<longleftrightarrow> heading_pattern k s"
  by (simp add: headingMatch_Some heading_pattern_def heading_match_at_pattern)

lemma paragraph_result_in:
  assumes "1 \<le> n" "n \<le> doc_lines d"
  shows "\<exists>fi. paragraph_result n d = Inr (Some fi) \<and> type fi = Paragraph"
  using getParagraphFocusInfo_eq [OF assms] by (simp add: paragraph_result_def)

text \<open>
  Claim C6. If the metadata has no heading whose start line plus one is the clicked line, or
  there is no heading metadata at all, \<open>getHeadingFocusInfo\<close> returns the single-line
  extent of the heading line, as a value; so does \<open>getFocusInfoForLine\<close> for a line that
  matches the heading pattern.
\<close>

theorem heading_unresolved_single_line:
  assumes "unresolved_heading m headingLine"
  shows "getHeadingFocusInfo m headingLine lvl =
           \<lparr>fromLine = headingLine, toLine = headingLine, type = Heading, level = Some lvl\<rparr> \<and>
         (doc_line d headingLine = Inr text \<and> headingMatch text = Some k \<longrightarrow>
            getFocusInfoForLine m headingLine d =
              Inr (Some \<lparr>fromLine = headingLine, toLine = headingLine, type = Heading,
                         level = Some (int k)\<rparr>))"
  using assms
  by (simp add: getHeadingFocusInfo_unresolved single_line_def getFocusInfoForLine_def)

text \<open>
  Claim C9. For every document and every line number between 1 and the number of lines,
  \<open>getFocusInfoForLine\<close> returns a focus information, not null, and its type is heading or
  paragraph, never list or block.
\<close>

theorem focus_info_never_null:
  assumes "1 \<le> n" and "n \<le> doc_lines d"
  shows "\<exists>fi. getFocusInfoForLine m n d = Inr (Some fi) \<and> (type fi = Heading \<or> type fi = Paragraph)"
proof -
  have dl: "doc_line d n = Inr (d ! nat (n - 1))" using assms by (simp add: doc_line_in)
  obtain p where p: "paragraph_result n d = Inr (Some p)" "type p = Paragraph"
    using paragraph_result_in [OF assms] by blast
  show ?thesis
  proof (cases "headingMatch (d ! nat (n - 1))")
    case (Some k)
    with dl show ?thesis
      by (simp add: getFocusInfoForLine_def getHeadingFocusInfo_type)
  next
    case None
    show ?thesis
    proof (cases "findParentHeading m n")
      case fNone: None
      with None dl p show ?thesis by (simp add: getFocusInfoForLine_def)
    next
      case (Some h)
      then have "type h = Heading" by (rule findParentHeading_type)
      with Some None dl p show ?thesis by (simp add: getFocusInfoForLine_def)
    qed
  qed
qed

text \<open>
  The choice that \<open>getFocusInfoForLine\<close> makes. A clicked line that matches the heading
  pattern, with \<open>k\<close> hash characters, is a heading of level \<open>k\<close>, the number of leading
  hash characters, and its extent is that of \<open>getHeadingFocusInfo\<close>. A clicked line that
  does not match, when metadata is present, gets what \<open>getHeadingFocusInfo\<close> computes
  for the nearest preceding heading if there is one and the body is included, and its
  paragraph extent otherwise.
\<close>

lemma getFocusInfoForLine_cases:
  assumes "doc_line d n = Inr text"
  shows "(heading_pattern k text \<longrightarrow>
            k = length (takeWhile (\<lambda>c. c = hash) text) \<and>
            getFocusInfoForLine m n d = Inr (Some (getHeadingFocusInfo m n (int k))) \<and>
            type (getHeadingFocusInfo m n (int k)) = Heading \<and>
            level (getHeadingFocusInfo m n (int k)) = Some (int k)) \<and>
         ((\<forall>j. \<not> heading_pattern j text) \<and> metadata m = Some md \<longrightarrow>
            getFocusInfoForLine m n d =
              (case preceding_heading md n of
                 None \<Rightarrow> paragraph_result n d
               | Some h \<Rightarrow>
                   if includeBody m then Inr (Some (getHeadingFocusInfo m (h_line h + 1) (h_level h)))
                   else paragraph_result n d))"
proof (intro conjI impI)
  assume hp: "heading_pattern k text"
  then have hm: "headingMatch text = Some k" by (simp add: headingMatch_pattern)
  then have "heading_match_at k text" by (simp add: headingMatch_Some)
  then show "k = length (takeWhile (\<lambda>c. c = hash) text)" by (rule heading_match_at_leading)
  from hm assms show "getFocusInfoForLine m n d = Inr (Some (getHeadingFocusInfo m n (int k)))"
    by (simp add: getFocusInfoForLine_def)
  show "type (getHeadingFocusInfo m n (int k)) = Heading" by (rule getHeadingFocusInfo_type)
  show "level (getHeadingFocusInfo m n (int k)) = Some (int k)"
    by (simp add: getHeadingFocusInfo_def single_line_def split: option.splits)
next
  assume a: "(\<forall>j. \<not> heading_pattern j text) \<and> metadata m = Some md"
  then have "headingMatch text = None"
    using headingMatch_pattern by (metis option.exhaust)
  with a assms show "getFocusInfoForLine m n d =
              (case preceding_heading md n of
                 None \<Rightarrow> paragraph_result n d
               | Some h \<Rightarrow>
                   if includeBody m then Inr (Some (getHeadingFocusInfo m (h_line h + 1) (h_level h)))
                   else paragraph_result n d)"
    by (simp add: getFocusInfoForLine_def findParentHeading_eq split: option.splits)
qed

lemmas heading_eval =
  getHeadingFocusInfo_def extend_to_sections_def single_line_def findParentHeading_def
  getFocusInfoForLine_def paragraph_result_def getParagraphFocusInfo_def Let_def

subsection \<open>Instances\<close>

theorem heading_unresolved_single_line_witness:
  "unresolved_heading
     \<lparr>metadata = Some \<lparr>headings = Some [\<lparr>h_line = 4, h_level = 2\<rparr>],
                        sections = Some [\<lparr>s_end_line = Some 9\<rparr>]\<rparr>,
      includeBody = True\<rparr> 1 \<and>
   getFocusInfoForLine
     \<lparr>metadata = Some \<lparr>headings = Some [\<lparr>h_line = 4, h_level = 2\<rparr>],
                        sections = Some [\<lparr>s_end_line = Some 9\<rparr>]\<rparr>,
      includeBody = True\<rparr> 1 [js ''# H1'', js ''text''] =
     Inr (Some \<lparr>fromLine = 1, toLine = 1, type = Heading, level = Some 1\<rparr>)"
proof -
  let ?m = "\<lparr>metadata = Some \<lparr>headings = Some [\<lparr>h_line = 4, h_level = 2\<rparr>],
                        sections = Some [\<lparr>s_end_line = Some 9\<rparr>]\<rparr>,
      includeBody = True\<rparr>"
  have u: "unresolved_heading ?m 1" by (simp add: unresolved_heading_def)
  have d: "doc_line [js ''# H1'', js ''text''] 1 = Inr (js ''# H1'')" by (simp add: eval_simps)
  have h: "headingMatch (js ''# H1'') = Some 1" by (simp add: eval_simps)
  from heading_unresolved_single_line [OF u, of 1 "[js ''# H1'', js ''text'']" "js ''# H1''" 1] d h u
  show ?thesis by simp
qed

theorem focus_info_never_null_witness:
  "\<exists>fi. getFocusInfoForLine \<lparr>metadata = None, includeBody = True\<rparr> 2 [js ''# H1'', js ''text''] =
           Inr (Some fi) \<and> (type fi = Heading \<or> type fi = Paragraph)"
  using focus_info_never_null [of 2 "[js ''# H1'', js ''text'']" "\<lparr>metadata = None, includeBody = True\<rparr>"]
  by (simp add: doc_lines_def)

text \<open>
  Claim C1 fails on the code. With body inclusion enabled, two headings of level 1 on the
  lines 1 and 2 and a last section that ends on line 3, the extent of the heading of line 1
  is 1 to 3: it holds the heading of line 2, of equal level. The loop finds that heading and
  sets \<open>toLine\<close> to 1, the line before it, which is the heading line itself; the test for
  "no next heading found" compares \<open>toLine\<close> with the heading line and extends the extent to
  the end of the last section.
\<close>

theorem adjacent_heading_extent:
  "getFocusInfoForLine
     \<lparr>metadata = Some \<lparr>headings = Some [\<lparr>h_line = 0, h_level = 1\<rparr>, \<lparr>h_line = 1, h_level = 1\<rparr>],
                        sections = Some [\<lparr>s_end_line = Some 0\<rparr>, \<lparr>s_end_line = Some 1\<rparr>,
                                         \<lparr>s_end_line = Some 2\<rparr>]\<rparr>,
      includeBody = True\<rparr> 1 [js ''# A'', js ''# B'', js ''text''] =
     Inr (Some \<lparr>fromLine = 1, toLine = 3, type = Heading, level = Some 1\<rparr>)"
  by (simp add: heading_eval next_heading_loop.simps eval_simps)

text \<open>
  Claim C5 as stated fails: with headings on the lines 1 (level 1) and 5 (level 2), the
  heading of line 5 is deeper than level 1 and does not end the extent of line 1, so
  \<open>toLine\<close> is not 4: it is 10 with a last section that ends on line 9 (counted from 0),
  and 1 without sections.
\<close>

theorem nested_heading_counterexample:
  "toLine (getHeadingFocusInfo
     \<lparr>metadata = Some \<lparr>headings = Some [\<lparr>h_line = 0, h_level = 1\<rparr>, \<lparr>h_line = 4, h_level = 2\<rparr>],
                        sections = Some [\<lparr>s_end_line = Some 9\<rparr>]\<rparr>,
      includeBody = True\<rparr> 1 1) = 10 \<and>
   toLine (getHeadingFocusInfo
     \<lparr>metadata = Some \<lparr>headings = Some [\<lparr>h_line = 0, h_level = 1\<rparr>, \<lparr>h_line = 4, h_level = 2\<rparr>],
                        sections = None\<rparr>,
      includeBody = True\<rparr> 1 1) = 1"
  by (simp add: heading_eval next_heading_loop.simps)

text \<open>
  Claim C5, as amended. With body inclusion enabled, headings on the lines 1 (level 1) and
  5 (level 2) and a last section that ends on line 9 (counted from 0), focusing line 1 gives
  \<open>toLine = 10\<close>; it gives \<open>toLine = 4\<close> when the heading of line 5 has level 1; and
  focusing the heading of line 5, with no further heading, gives \<open>toLine = 10\<close>.
\<close>

theorem heading_extent_examples:
  "toLine (getHeadingFocusInfo
     \<lparr>metadata = Some \<lparr>headings = Some [\<lparr>h_line = 0, h_level = 1\<rparr>, \<lparr>h_line = 4, h_level = 2\<rparr>],
                        sections = Some [\<lparr>s_end_line = Some 9\<rparr>]\<rparr>,
      includeBody = True\<rparr> 1 1) = 10 \<and>
   toLine (getHeadingFocusInfo
     \<lparr>metadata = Some \<lparr>headings = Some [\<lparr>h_line = 0, h_level = 1\<rparr>, \<lparr>h_line = 4, h_level = 1\<rparr>],
                        sections = Some [\<lparr>s_end_line = Some 9\<rparr>]\<rparr>,
      includeBody = True\<rparr> 1 1) = 4 \<and>
   toLine (getHeadingFocusInfo
     \<lparr>metadata = Some \<lparr>headings = Some [\<lparr>h_line = 0, h_level = 1\<rparr>, \<lparr>h_line = 4, h_level = 2\<rparr>],
                        sections = Some [\<lparr>s_end_line = Some 9\<rparr>]\<rparr>,
      includeBody = True\<rparr> 5 2) = 10"
  by (simp add: heading_eval next_heading_loop.simps)

subsection \<open>The focus state field\<close>

lemma focusState_update_others:
  "list_all (\<lambda>e. e = OtherEffect) pre \<Longrightarrow>
   focusState_update val (pre @ rest) = focusState_update val rest"
  by (induction pre) auto

text \<open>
  Claim C7, as amended. The focus state changes only through the two effects, and the first
  set-focus or clear-focus effect of a transaction decides: when the effects before it are
  neither, a set-focus effect makes the state its payload and a clear-focus effect makes it
  absent; a transaction that carries neither effect leaves the state unchanged.
\<close>

theorem focus_state_first_effect:
  "(list_all (\<lambda>e. e = OtherEffect) pre \<longrightarrow>
      focusState_update val (pre @ SetFocus v # post) = v \<and>
      focusState_update val (pre @ ClearFocus # post) = None) \<and>
   (list_all (\<lambda>e. e = OtherEffect) effects \<longrightarrow> focusState_update val effects = val)"
proof (intro conjI impI)
  assume "list_all (\<lambda>e. e = OtherEffect) pre"
  then show "focusState_update val (pre @ SetFocus v # post) = v"
    and "focusState_update val (pre @ ClearFocus # post) = None"
    by (simp_all add: focusState_update_others)
next
  assume "list_all (\<lambda>e. e = OtherEffect) effects"
  then have "focusState_update val (effects @ []) = focusState_update val []"
    by (rule focusState_update_others)
  then show "focusState_update val effects = val" by simp
qed

theorem focus_state_first_effect_witness:
  "focusState_update None
     [OtherEffect, SetFocus (Some \<lparr>fromLine = 1, toLine = 2, type = Paragraph, level = None\<rparr>),
      ClearFocus] =
     Some \<lparr>fromLine = 1, toLine = 2, type = Paragraph, level = None\<rparr> \<and>
   focusState_update (Some \<lparr>fromLine = 1, toLine = 2, type = Paragraph, level = None\<rparr>)
     [OtherEffect, ClearFocus] = None \<and>
   focusState_update (Some \<lparr>fromLine = 1, toLine = 2, type = Paragraph, level = None\<rparr>)
     [OtherEffect, OtherEffect] =
     Some \<lparr>fromLine = 1, toLine = 2, type = Paragraph, level = None\<rparr>"
proof -
  let ?f = "\<lparr>fromLine = 1, toLine = 2, type = Paragraph, level = None\<rparr>"
  have o1: "list_all (\<lambda>e. e = OtherEffect) [OtherEffect]" by simp
  have o2: "list_all (\<lambda>e. e = OtherEffect) [OtherEffect, OtherEffect]" by simp
  from focus_state_first_effect [of "[OtherEffect]" None "Some ?f" "[ClearFocus]" "[]"] o1
  have a: "focusState_update None ([OtherEffect] @ SetFocus (Some ?f) # [ClearFocus]) = Some ?f"
    by blast
  from focus_state_first_effect [of "[OtherEffect]" "Some ?f" None "[]" "[OtherEffect, OtherEffect]"] o1 o2
  have b: "focusState_update (Some ?f) ([OtherEffect] @ ClearFocus # []) = None"
    and c: "focusState_update (Some ?f) [OtherEffect, OtherEffect] = Some ?f"
    by blast+
  from a b c show ?thesis by simp
qed

text \<open>
  Claim C7 as stated fails for a transaction that carries both effects: with a clear-focus
  effect before a set-focus effect the state is absent, not the payload, and with a set-focus
  effect before a clear-focus effect the state is the payload, not absent.
\<close>

theorem focus_state_counterexample:
  "SetFocus (Some \<lparr>fromLine = 1, toLine = 2, type = Paragraph, level = None\<rparr>) \<in>
     set [ClearFocus, SetFocus (Some \<lparr>fromLine = 1, toLine = 2, type = Paragraph, level = None\<rparr>)] \<and>
   focusState_update None
     [ClearFocus, SetFocus (Some \<lparr>fromLine = 1, toLine = 2, type = Paragraph, level = None\<rparr>)] = None \<and>
   ClearFocus \<in>
     set [SetFocus (Some \<lparr>fromLine = 1, toLine = 2, type = Paragraph, level = None\<rparr>), ClearFocus] \<and>
   focusState_update None
     [SetFocus (Some \<lparr>fromLine = 1, toLine = 2, type = Paragraph, level = None\<rparr>), ClearFocus] =
     Some \<lparr>fromLine = 1, toLine = 2, type = Paragraph, level = None\<rparr>"
  by simp

subsection \<open>The loops of the heading extent\<close>

lemma next_heading_loop_eq:
  "next_heading_loop hs lvl i toL =
     (case find (\<lambda>h. h_level h \<le> lvl) (drop i hs) of None \<Rightarrow> toL | Some h \<Rightarrow> h_line h)"
proof (induction hs lvl i toL rule: next_heading_loop.induct)
  case (1 hs lvl i toL)
  show ?case
  proof (cases "i < length hs")
    case True
    then have "drop i hs = hs ! i # drop (i + 1) hs" by (simp add: Cons_nth_drop_Suc)
    with True "1.IH" show ?thesis by (subst next_heading_loop.simps) simp
  next
    case False
    then show ?thesis by (subst next_heading_loop.simps) simp
  qed
qed

subsection \<open>The decorations\<close>

lemma build_loop_eq:
  "build_loop d fi i acc =
     acc @ map (\<lambda>j. (line_from d j, line_from d j,
                      if j \<ge> fromLine fi \<and> j \<le> toLine fi then focusedLineMark else dimmedLineMark))
             [i..doc_lines d]"
proof (induction d fi i acc rule: build_loop.induct)
  case (1 d fi i acc)
  show ?case
  proof (cases "i \<le> doc_lines d")
    case True
    then have "[i..doc_lines d] = i # [i + 1..doc_lines d]" by (simp add: upto_rec1)
    with True "1.IH" show ?thesis by (subst build_loop.simps) simp
  next
    case False
    then show ?thesis by (subst build_loop.simps) simp
  qed
qed

lemma line_from_less:
  assumes "1 \<le> i" "i < j" "j \<le> doc_lines d + 1"
  shows "line_from d i < line_from d j"
proof -
  define a where "a = nat (i - 1)"
  define b where "b = nat (j - 1)"
  from assms have ab: "a < b" unfolding a_def b_def by linarith
  from assms have bd: "b \<le> length d" unfolding b_def doc_lines_def by linarith
  from ab have "b = a + (b - a)" by simp
  then have "take b d = take a d @ take (b - a) (drop a d)"
    by (metis take_add)
  moreover from ab bd have "0 < length (take (b - a) (drop a d))" by simp
  then have "0 < sum_list (map (\<lambda>l. length l + 1) (take (b - a) (drop a d)))"
    by (cases "take (b - a) (drop a d)") auto
  ultimately show ?thesis by (simp add: line_from_def a_def b_def)
qed

lemma line_from_inj:
  assumes "1 \<le> i" "i \<le> doc_lines d" "1 \<le> j" "j \<le> doc_lines d" "line_from d i = line_from d j"
  shows "i = j"
proof (rule ccontr)
  assume "i \<noteq> j"
  then consider "i < j" | "j < i" by linarith
  then show False
  proof cases
    case 1
    with assms line_from_less [of i j d] show False by simp
  next
    case 2
    with assms line_from_less [of j i d] show False by simp
  qed
qed

lemma has_mark_build:
  assumes "1 \<le> i" "i \<le> doc_lines d"
  shows "has_mark (buildDecorations d (Some fi)) d i mk \<longleftrightarrow>
           mk = (if i \<ge> fromLine fi \<and> i \<le> toLine fi then focusedLineMark else dimmedLineMark)"
proof -
  define f where "f = (\<lambda>j. (line_from d j, line_from d j,
    if j \<ge> fromLine fi \<and> j \<le> toLine fi then focusedLineMark else dimmedLineMark))"
  have set: "has_mark (buildDecorations d (Some fi)) d i mk \<longleftrightarrow>
          (line_from d i, line_from d i, mk) \<in> f ` {1..doc_lines d}"
    by (simp add: has_mark_def buildDecorations_def build_loop_eq f_def)
  show ?thesis
  proof
    assume "has_mark (buildDecorations d (Some fi)) d i mk"
    with set obtain j where j: "j \<in> {1..doc_lines d}" "(line_from d i, line_from d i, mk) = f j"
      by blast
    then have "line_from d i = line_from d j" by (simp add: f_def)
    with j assms have "i = j" by (intro line_from_inj [of i d j]) simp_all
    with j show "mk = (if i \<ge> fromLine fi \<and> i \<le> toLine fi then focusedLineMark else dimmedLineMark)"
      by (simp add: f_def)
  next
    assume "mk = (if i \<ge> fromLine fi \<and> i \<le> toLine fi then focusedLineMark else dimmedLineMark)"
    then have "(line_from d i, line_from d i, mk) = f i" by (simp add: f_def)
    moreover from assms have "i \<in> {1..doc_lines d}" by simp
    ultimately have "(line_from d i, line_from d i, mk) \<in> f ` {1..doc_lines d}"
      by (rule image_eqI)
    with set show "has_mark (buildDecorations d (Some fi)) d i mk" by simp
  qed
qed

lemma applyFocus_fields:
  "ev_focus (applyFocus ev fi) = Some fi \<and>
   ev_decorations (applyFocus ev fi) = buildDecorations (ev_doc ev) (Some fi) \<and>
   ev_doc (applyFocus ev fi) = ev_doc ev"
  by (simp add: applyFocus_def dispatch_def Let_def)

lemma clearFocus_fields:
  "ev_focus (clearFocus ev) = None \<and> ev_decorations (clearFocus ev) = [] \<and>
   ev_doc (clearFocus ev) = ev_doc ev"
  by (simp add: clearFocus_def dispatch_def buildDecorations_def Let_def)

text \<open>
  Claim C4. With a focus of extent \<open>fromLine\<close> to \<open>toLine\<close>, the decoration set that is
  built holds, for every line of the document, the focused mark exactly when the line is
  inside the extent and the dimmed mark exactly when it is outside, so no line has both;
  it is the decoration set of the editor once the focus is applied. Without a focus the
  decoration set is empty, as it is once the focus is cleared.
\<close>

theorem decorations_partition:
  "(1 \<le> i \<and> i \<le> doc_lines d \<longrightarrow>
      (has_mark (buildDecorations d (Some fi)) d i focusedLineMark \<longleftrightarrow>
         fromLine fi \<le> i \<and> i \<le> toLine fi) \<and>
      (has_mark (buildDecorations d (Some fi)) d i dimmedLineMark \<longleftrightarrow>
         \<not> (fromLine fi \<le> i \<and> i \<le> toLine fi))) \<and>
   ev_decorations (applyFocus ev fi) = buildDecorations (ev_doc ev) (Some fi) \<and>
   buildDecorations d None = [] \<and>
   ev_decorations (clearFocus ev) = []"
proof (intro conjI impI)
  assume a: "1 \<le> i \<and> i \<le> doc_lines d"
  then show "has_mark (buildDecorations d (Some fi)) d i focusedLineMark \<longleftrightarrow>
         fromLine fi \<le> i \<and> i \<le> toLine fi"
    by (simp add: has_mark_build)
  from a show "has_mark (buildDecorations d (Some fi)) d i dimmedLineMark \<longleftrightarrow>
         \<not> (fromLine fi \<le> i \<and> i \<le> toLine fi)"
    by (simp add: has_mark_build)
next
  show "ev_decorations (applyFocus ev fi) = buildDecorations (ev_doc ev) (Some fi)"
    by (simp add: applyFocus_fields)
next
  show "buildDecorations d None = []" by (simp add: buildDecorations_def)
next
  show "ev_decorations (clearFocus ev) = []" by (simp add: clearFocus_fields)
qed

theorem decorations_partition_witness:
  "has_mark (buildDecorations [js ''# H1'', js ''line A'', js ''line B'']
       (Some \<lparr>fromLine = 2, toLine = 3, type = Paragraph, level = None\<rparr>))
     [js ''# H1'', js ''line A'', js ''line B''] 2 focusedLineMark \<and>
   \<not> has_mark (buildDecorations [js ''# H1'', js ''line A'', js ''line B'']
       (Some \<lparr>fromLine = 2, toLine = 3, type = Paragraph, level = None\<rparr>))
     [js ''# H1'', js ''line A'', js ''line B''] 2 dimmedLineMark \<and>
   has_mark (buildDecorations [js ''# H1'', js ''line A'', js ''line B'']
       (Some \<lparr>fromLine = 2, toLine = 3, type = Paragraph, level = None\<rparr>))
     [js ''# H1'', js ''line A'', js ''line B''] 1 dimmedLineMark \<and>
   \<not> has_mark (buildDecorations [js ''# H1'', js ''line A'', js ''line B'']
       (Some \<lparr>fromLine = 2, toLine = 3, type = Paragraph, level = None\<rparr>))
     [js ''# H1'', js ''line A'', js ''line B''] 1 focusedLineMark"
  using
    decorations_partition [of 2 "[js ''# H1'', js ''line A'', js ''line B'']"
      "\<lparr>fromLine = 2, toLine = 3, type = Paragraph, level = None\<rparr>"]
    decorations_partition [of 1 "[js ''# H1'', js ''line A'', js ''line B'']"
      "\<lparr>fromLine = 2, toLine = 3, type = Paragraph, level = None\<rparr>"]
  by (simp add: doc_lines_def)

subsection \<open>The pointer handlers\<close>

text \<open>
  Claim C8. A pointer-up event whose time stamp exceeds that of the preceding pointer-down,
  kept in \<open>lastClick\<close>, by more than \<open>focusSensitivity\<close> makes the handler return at
  once: the state, with the focus of both modes, is as before, whatever the target.
\<close>

theorem drag_is_ignored:
  "timeStamp evt - lastClick p > focusSensitivity (settings p) \<Longrightarrow>
   pointerup previewClick p evt = Inr p"
  by (simp add: pointerup_def)

theorem drag_is_ignored_witness:
  "pointerup (\<lambda>p evt. ())
     (pointerdown
        \<lparr>settings = DEFAULT_SETTINGS, lastClick = 0,
         editModeFocusManager = \<lparr>metadata = None, includeBody = True\<rparr>,
         focusManager = (),
         activeView = Some \<lparr>v_mode = Source,
           v_editor = Some \<lparr>ev_doc = [js ''# H1'', js ''text''],
             ev_focus = Some \<lparr>fromLine = 1, toLine = 1, type = Heading, level = Some 1\<rparr>,
             ev_decorations = []\<rparr>\<rparr>,
         fileCache = None\<rparr>
        \<lparr>timeStamp = 1000, targetIsElement = True, targetClasses = [], posAtCoords = Some 7\<rparr>)
     \<lparr>timeStamp = 3000, targetIsElement = True, targetClasses = [], posAtCoords = Some 7\<rparr> =
   Inr \<lparr>settings = DEFAULT_SETTINGS, lastClick = 1000,
         editModeFocusManager = \<lparr>metadata = None, includeBody = True\<rparr>,
         focusManager = (),
         activeView = Some \<lparr>v_mode = Source,
           v_editor = Some \<lparr>ev_doc = [js ''# H1'', js ''text''],
             ev_focus = Some \<lparr>fromLine = 1, toLine = 1, type = Heading, level = Some 1\<rparr>,
             ev_decorations = []\<rparr>\<rparr>,
         fileCache = None\<rparr>"
  using drag_is_ignored [of
      "pointerdown
        \<lparr>settings = DEFAULT_SETTINGS, lastClick = 0,
         editModeFocusManager = \<lparr>metadata = None, includeBody = True\<rparr>,
         focusManager = (),
         activeView = Some \<lparr>v_mode = Source,
           v_editor = Some \<lparr>ev_doc = [js ''# H1'', js ''text''],
             ev_focus = Some \<lparr>fromLine = 1, toLine = 1, type = Heading, level = Some 1\<rparr>,
             ev_decorations = []\<rparr>\<rparr>,
         fileCache = None\<rparr>
        \<lparr>timeStamp = 1000, targetIsElement = True, targetClasses = [], posAtCoords = Some 7\<rparr>"
      "\<lparr>timeStamp = 3000, targetIsElement = True, targetClasses = [], posAtCoords = Some 7\<rparr>"
      "\<lambda>p evt. ()"]
  by (simp add: pointerdown_def DEFAULT_SETTINGS_def)

text \<open>
  A pointer-up within the sensitivity window is handled: in the same state, a click on the
  second line moves the focus to the paragraph of that line and rebuilds the decorations.
\<close>

lemma quick_click_focuses:
  "pointerup (\<lambda>p evt. ())
     \<lparr>settings = DEFAULT_SETTINGS, lastClick = 1000,
      editModeFocusManager = \<lparr>metadata = None, includeBody = True\<rparr>,
      focusManager = (),
      activeView = Some \<lparr>v_mode = Source,
        v_editor = Some \<lparr>ev_doc = [js ''# H1'', js ''text''],
          ev_focus = Some \<lparr>fromLine = 1, toLine = 1, type = Heading, level = Some 1\<rparr>,
          ev_decorations = []\<rparr>\<rparr>,
      fileCache = None\<rparr>
     \<lparr>timeStamp = 1100, targetIsElement = True, targetClasses = [], posAtCoords = Some 7\<rparr> =
   Inr \<lparr>settings = DEFAULT_SETTINGS, lastClick = 1000,
        editModeFocusManager = \<lparr>metadata = None, includeBody = True\<rparr>,
        focusManager = (),
        activeView = Some \<lparr>v_mode = Source,
          v_editor = Some \<lparr>ev_doc = [js ''# H1'', js ''text''],
            ev_focus = Some \<lparr>fromLine = 2, toLine = 2, type = Paragraph, level = None\<rparr>,
            ev_decorations = [(0, 0, dimmedLineMark), (5, 5, focusedLineMark)]\<rparr>\<rparr>,
        fileCache = None\<rparr>"
  by (simp add: pointerup_def handleEditModeClick_def DEFAULT_SETTINGS_def setMetadata_def
      lineAt_def with_editor_def applyFocus_def dispatch_def buildDecorations_def line_from_def
      getFocusInfoForLine_def paragraph_result_def getParagraphFocusInfo_def Let_def eval_simps)

subsection \<open>The extent of a resolved heading\<close>

lemma extend_to_sections_none:
  "extend_to_sections md headingLine headingLine =
     (case sections md of
        None \<Rightarrow> headingLine
      | Some secs \<Rightarrow>
          if secs = [] then headingLine
          else (case s_end_line (last secs) of None \<Rightarrow> headingLine | Some e \<Rightarrow> e + 1))"
  by (simp add: extend_to_sections_def last_conv_nth split: option.splits)

lemma extend_to_sections_other:
  "toL \<noteq> headingLine \<Longrightarrow> extend_to_sections md headingLine toL = toL"
  by (simp add: extend_to_sections_def split: option.splits)

text \<open>
  With the body included, the extent of a heading that the metadata resolves ends where the
  full extent ends, unless the heading that ends it is on the line right after the heading
  line: then the extent ends where it would end with no such heading.
\<close>

lemma getHeadingFocusInfo_resolved:
  assumes "metadata m = Some md" and "headings md = Some hs"
    and "findIndex (\<lambda>h. h_line h + 1 = headingLine) hs = Some idx" and "includeBody m"
  shows "getHeadingFocusInfo m headingLine lvl =
           \<lparr>fromLine = headingLine,
            toLine =
              (case find (\<lambda>h. h_level h \<le> lvl) (drop (idx + 1) hs) of
                 None \<Rightarrow> full_extent_end md hs idx headingLine lvl
               | Some next \<Rightarrow>
                   if h_line next = headingLine
                   then extend_to_sections md headingLine headingLine
                   else full_extent_end md hs idx headingLine lvl),
            type = Heading, level = Some lvl\<rparr>"
proof (cases "find (\<lambda>h. h_level h \<le> lvl) (drop (idx + 1) hs)")
  case None
  then have "next_heading_loop hs lvl (idx + 1) headingLine = headingLine"
    by (simp add: next_heading_loop_eq)
  with None assms show ?thesis
    by (simp add: getHeadingFocusInfo_def full_extent_end_def extend_to_sections_none)
next
  case (Some nx)
  then have l: "next_heading_loop hs lvl (idx + 1) headingLine = h_line nx"
    by (simp add: next_heading_loop_eq)
  show ?thesis
  proof (cases "h_line nx = headingLine")
    case True
    with l Some assms show ?thesis by (simp add: getHeadingFocusInfo_def)
  next
    case False
    with l Some assms show ?thesis
      by (simp add: getHeadingFocusInfo_def full_extent_end_def extend_to_sections_other)
  qed
qed

text \<open>
  Claim C2 fails on the code. In the document of the lines \<open># A\<close>, \<open>B\<close>, \<open>===\<close> and
  \<open>text\<close> the metadata has two headings of level 1, on the lines 1 and 2, and the last
  section ends on line 4. Line 2 does not match the heading pattern, and its nearest
  preceding heading is that of line 1, whose full extent ends on line 1, before the heading
  of line 2. With the body included, a click on line 2 gives the extent 1 to 4, which holds
  the heading of line 2 and all that follows it.
\<close>

theorem parent_heading_adjacent_extent:
  "preceding_heading
     \<lparr>headings = Some [\<lparr>h_line = 0, h_level = 1\<rparr>, \<lparr>h_line = 1, h_level = 1\<rparr>],
      sections = Some [\<lparr>s_end_line = Some 0\<rparr>, \<lparr>s_end_line = Some 2\<rparr>,
                       \<lparr>s_end_line = Some 3\<rparr>]\<rparr> 2 =
     Some \<lparr>h_line = 0, h_level = 1\<rparr> \<and>
   full_extent_end
     \<lparr>headings = Some [\<lparr>h_line = 0, h_level = 1\<rparr>, \<lparr>h_line = 1, h_level = 1\<rparr>],
      sections = Some [\<lparr>s_end_line = Some 0\<rparr>, \<lparr>s_end_line = Some 2\<rparr>,
                       \<lparr>s_end_line = Some 3\<rparr>]\<rparr>
     [\<lparr>h_line = 0, h_level = 1\<rparr>, \<lparr>h_line = 1, h_level = 1\<rparr>] 0 1 1 = 1 \<and>
   getFocusInfoForLine
     \<lparr>metadata = Some \<lparr>headings = Some [\<lparr>h_line = 0, h_level = 1\<rparr>, \<lparr>h_line = 1, h_level = 1\<rparr>],
                        sections = Some [\<lparr>s_end_line = Some 0\<rparr>, \<lparr>s_end_line = Some 2\<rparr>,
                                         \<lparr>s_end_line = Some 3\<rparr>]\<rparr>,
      includeBody = True\<rparr> 2 [js ''# A'', js ''B'', js ''==='', js ''text''] =
     Inr (Some \<lparr>fromLine = 1, toLine = 4, type = Heading, level = Some 1\<rparr>)"
  by (simp add: preceding_heading_def full_extent_end_def heading_eval eval_simps)

end
